theory Spec2Isabelle
  imports Complex_Main "HOL-Library.Log_Nat"
begin

section \<open>The image compressor of blinko-image-compressor\<close>

text \<open>
  A shallow embedding of \<^verbatim>\<open>src/imageCompressor.ts\<close>: the class \<^verbatim>\<open>ImageCompressor\<close>
  with its methods \<^verbatim>\<open>canCompress\<close>, \<^verbatim>\<open>compressImage\<close> and \<^verbatim>\<open>formatFileSize\<close>.

  Numbers. A JavaScript number is an IEEE double. Byte sizes, pixel dimensions, the
  size limits and the scaling percentage are non-negative integers (the settings page
  produces them with \<^verbatim>\<open>Number(input.value)\<close> on integer inputs), modelled as \<open>nat\<close>;
  negative, fractional or NaN settings are not modelled. The dimension planner floors
  products of quotients, where the rounding of the double arithmetic decides the integer
  that comes out, so there every product and quotient is rounded as binary64 rounds it
  (\<open>round64\<close>). The quality, the two 0.9 thresholds and the factor 0.8 of the retry are
  exact \<open>real\<close> numbers. A division whose divisor can be zero is modelled with its IEEE
  result (\<open>Infinity\<close>, \<open>NaN\<close>) written out.

  Optional fields (\<^verbatim>\<open>useQuality?: boolean\<close>, \<^verbatim>\<open>maxWidth?: number\<close>) are options, \<open>None\<close>
  standing for \<^verbatim>\<open>undefined\<close>; the truthiness tests of the source are written out.
\<close>

subsection \<open>Double arithmetic\<close>

text \<open>Rounding to the nearest integer, a tie going to the even one.\<close>

definition roundHalfEven :: "real \<Rightarrow> int" where
  "roundHalfEven y =
     (let n = \<lfloor>y\<rfloor>; r = y - of_int n
      in if r < 1 / 2 then n
         else if 1 / 2 < r then n + 1
         else if even n then n else n + 1)"

text \<open>
  The binary64 number nearest to a real, ties to even: 53 significant bits at the exponent
  of the argument, and the fixed spacing \<open>2 powi (- 1074)\<close> below \<open>2 powi (- 1022)\<close>.
  An operation \<^verbatim>\<open>a * b\<close> or \<^verbatim>\<open>a / b\<close> on doubles gives \<open>round64\<close> of the exact result.
  Overflow to \<^verbatim>\<open>Infinity\<close>, from \<open>2 powi 1024\<close> on, is not modelled.
\<close>

definition round64 :: "real \<Rightarrow> real" where
  "round64 x =
     (if x = 0 then 0
      else (let e = max \<lfloor>log 2 \<bar>x\<bar>\<rfloor> (- 1022);
                u = 2 powi (e - 52)
            in sgn x * of_int (roundHalfEven (\<bar>x\<bar> / u)) * u))"

subsection \<open>Data\<close>

text \<open>The part of a browser \<^verbatim>\<open>File\<close> the compressor reads: name, declared MIME type, byte size.\<close>

record File =
  fname :: string
  ftype :: string
  fsize :: nat

record CompressionSettings =
  quality :: real
  useQuality :: "bool option"
  maintainSize :: "bool option"
  maxWidth :: "nat option"
  maxHeight :: "nat option"
  useScaling :: "bool option"
  scalePercent :: "nat option"
  useSizeLimits :: "bool option"
  enabled :: bool

text \<open>The result of a division of two doubles that are non-negative integers.\<close>

datatype number = Finite real | Infinity | NaN

record CompressionResult =
  originalFile :: File
  compressedFile :: File
  originalSize :: nat
  compressedSize :: nat
  compressionRatio :: number

text \<open>The options object handed to \<^verbatim>\<open>browser-image-compression\<close> (without the progress callback).\<close>

record options =
  maxSizeMB :: nat
  useWebWorker :: bool
  alwaysKeepResolution :: bool
  initialQuality :: real
  maxIteration :: nat
  fileType :: string
  exifOrientation :: nat
  maxWidthOrHeight :: "nat option"

record dimensions =
  width :: nat
  height :: nat

text \<open>
  What \<^verbatim>\<open>compressImage\<close> can throw: its own \<^verbatim>\<open>Error('File cannot be compressed')\<close>, or the
  error of the first encoder call, rethrown as it is.
\<close>

datatype error = FileCannotBeCompressed | EncoderError string

text \<open>
  The two collaborators of \<^verbatim>\<open>compressImage\<close>. \<open>probe\<close> is the block that loads the file
  into an \<^verbatim>\<open>Image\<close> element: \<open>Inr\<close> the dimensions the promise resolves to (\<open>{0, 0}\<close>
  from \<^verbatim>\<open>onerror\<close>), \<open>Inl\<close> when the block throws (caught by the source).
  \<open>imageCompression\<close> is the library call: \<open>Inl\<close> when it rejects. Its answer may
  differ between the calls of one invocation, so it also takes the number of calls made
  before.
\<close>

record env =
  probe :: "File \<Rightarrow> string + dimensions"
  imageCompression :: "nat \<Rightarrow> File \<Rightarrow> options \<Rightarrow> string + File"

text \<open>The calls \<^verbatim>\<open>compressImage\<close> makes to its collaborators, in order, with their answers.\<close>

datatype event =
  Probed File "string + dimensions"
| Encoded File options "string + File"

definition DEFAULT_SETTINGS :: CompressionSettings where
  "DEFAULT_SETTINGS =
     \<lparr>quality = 0.6, useQuality = Some True, maintainSize = Some True,
      maxWidth = Some 1920, maxHeight = Some 1080, useScaling = Some False,
      scalePercent = Some 100, useSizeLimits = Some False, enabled = True\<rparr>"

subsection \<open>Truthiness\<close>

definition truthy :: "bool option \<Rightarrow> bool" where
  "truthy b = (case b of None \<Rightarrow> False | Some v \<Rightarrow> v)"

definition truthyNum :: "nat option \<Rightarrow> bool" where
  "truthyNum n = (case n of None \<Rightarrow> False | Some k \<Rightarrow> k \<noteq> 0)"

text \<open>\<^verbatim>\<open>n || 0\<close>, and the value of a number that was tested truthy.\<close>

definition orZero :: "nat option \<Rightarrow> nat" where
  "orZero n = (case n of None \<Rightarrow> 0 | Some k \<Rightarrow> k)"

subsection \<open>canCompress\<close>

definition imageTypes :: "string list" where
  "imageTypes = [''image/jpeg'', ''image/png'', ''image/webp'', ''image/gif'']"

definition canCompress :: "CompressionSettings \<Rightarrow> File \<Rightarrow> bool" where
  "canCompress s f = (if \<not> enabled s then False else ftype f \<in> set imageTypes)"

subsection \<open>compressImage: the quality\<close>

definition compressionQuality :: "CompressionSettings \<Rightarrow> File \<Rightarrow> real" where
  "compressionQuality s f =
     (let q = quality s;
          q = (if fsize f > 1024 * 1024 then min q 0.5
               else if fsize f > 500 * 1024 then min q 0.6
               else q);
          q = (if ftype f = ''image/png'' then min q 0.5 else q)
      in q)"

text \<open>The options literal of the source, before any size adjustment.\<close>

definition initialOptions :: "CompressionSettings \<Rightarrow> File \<Rightarrow> options" where
  "initialOptions s f =
     \<lparr>maxSizeMB = 10,
      useWebWorker = True,
      alwaysKeepResolution = (\<not> truthy (useScaling s) \<and> \<not> truthy (useSizeLimits s)),
      initialQuality = (if useQuality s \<noteq> Some False then compressionQuality s f else 1),
      maxIteration = 10,
      fileType = ftype f,
      exifOrientation = 1,
      maxWidthOrHeight = None\<rparr>"

subsection \<open>compressImage: the target dimensions\<close>

text \<open>Percentage scaling of \<open>(targetWidth, targetHeight)\<close>.\<close>

definition applyScaling :: "CompressionSettings \<Rightarrow> nat \<times> nat \<Rightarrow> nat \<times> nat" where
  "applyScaling s t =
     (case t of (targetWidth, targetHeight) \<Rightarrow>
        if truthy (useScaling s) \<and> truthyNum (scalePercent s) \<and> orZero (scalePercent s) < 100
        then (let scale = round64 (real (orZero (scalePercent s)) / 100)
              in (nat \<lfloor>round64 (real targetWidth * scale)\<rfloor>,
                  nat \<lfloor>round64 (real targetHeight * scale)\<rfloor>))
        else (targetWidth, targetHeight))"

text \<open>
  The size limits. Inside the guard both limits are positive, so the two divisors, each
  larger than a limit, are positive.
\<close>

definition applySizeLimits :: "CompressionSettings \<Rightarrow> nat \<times> nat \<Rightarrow> nat \<times> nat" where
  "applySizeLimits s t =
     (case t of (targetWidth, targetHeight) \<Rightarrow>
        if truthy (useSizeLimits s) \<and> truthyNum (maxWidth s) \<and> truthyNum (maxHeight s)
        then
          (let mw = orZero (maxWidth s);
               mh = orZero (maxHeight s);
               (targetWidth, targetHeight) =
                  (if targetWidth > mw
                   then (let ratio = round64 (real mw / real targetWidth)
                         in (mw, nat \<lfloor>round64 (real targetHeight * ratio)\<rfloor>))
                   else (targetWidth, targetHeight));
               (targetWidth, targetHeight) =
                  (if targetHeight > mh
                   then (let ratio = round64 (real mh / real targetHeight)
                         in (nat \<lfloor>round64 (real targetWidth * ratio)\<rfloor>, mh))
                   else (targetWidth, targetHeight))
           in (targetWidth, targetHeight))
        else (targetWidth, targetHeight))"

definition targetDimensions :: "CompressionSettings \<Rightarrow> dimensions \<Rightarrow> nat \<times> nat" where
  "targetDimensions s d = applySizeLimits s (applyScaling s (width d, height d))"

text \<open>
  The options of the first attempt, from \<open>shouldAdjustSize\<close> and \<open>originalDimensions\<close>
  (\<open>None\<close> for \<^verbatim>\<open>null\<close>).
\<close>

definition attemptOptions ::
  "CompressionSettings \<Rightarrow> File \<Rightarrow> bool \<Rightarrow> dimensions option \<Rightarrow> options" where
  "attemptOptions s f shouldAdjustSize originalDimensions =
     (let opts = initialOptions s f in
      case originalDimensions of
        None \<Rightarrow> opts
      | Some d \<Rightarrow>
          if shouldAdjustSize \<and> width d > 0 \<and> height d > 0
          then (case targetDimensions s d of (targetWidth, targetHeight) \<Rightarrow>
                  if targetWidth \<noteq> width d \<or> targetHeight \<noteq> height d
                  then opts\<lparr>maxWidthOrHeight := Some (max targetWidth targetHeight),
                            alwaysKeepResolution := False\<rparr>
                  else opts)
          else opts)"

subsection \<open>compressImage: the retry\<close>

definition forcedOptions :: "CompressionSettings \<Rightarrow> File \<Rightarrow> options \<Rightarrow> options" where
  "forcedOptions s f opts =
     opts\<lparr>initialQuality := max 0.1 (compressionQuality s f - 0.4),
          fileType := ftype f,
          maxWidthOrHeight :=
            (if truthyNum (maxWidthOrHeight opts)
             then Some (nat \<lfloor>real (orZero (maxWidthOrHeight opts)) * 0.8\<rfloor>)
             else if truthyNum (maxWidth s)
             then Some (nat \<lfloor>real (max (orZero (maxWidth s)) (orZero (maxHeight s))) * 0.8\<rfloor>)
             else None)\<rparr>"

text \<open>\<^verbatim>\<open>a / b\<close> on two non-negative integers.\<close>

definition divide_number :: "nat \<Rightarrow> nat \<Rightarrow> number" where
  "divide_number a b =
     (if b = 0 then (if a = 0 then NaN else Infinity) else Finite (real a / real b))"

text \<open>\<^verbatim>\<open>x > 0\<close> on a number.\<close>

definition positive :: "number \<Rightarrow> bool" where
  "positive x = (case x of Finite r \<Rightarrow> 0 < r | Infinity \<Rightarrow> True | NaN \<Rightarrow> False)"

text \<open>The result literal, which the source writes once for each attempt.\<close>

definition resultOf :: "File \<Rightarrow> File \<Rightarrow> CompressionResult" where
  "resultOf f c =
     \<lparr>originalFile = f, compressedFile = c, originalSize = fsize f,
      compressedSize = fsize c, compressionRatio = divide_number (fsize c) (fsize f)\<rparr>"

subsection \<open>compressImage\<close>

text \<open>
  The probing block: run only when a size option is set; it gives \<open>shouldAdjustSize\<close>,
  \<open>originalDimensions\<close> and the call it made.
\<close>

definition probeDimensions ::
  "env \<Rightarrow> CompressionSettings \<Rightarrow> File \<Rightarrow> bool \<times> dimensions option \<times> event list" where
  "probeDimensions e s f =
     (if truthy (useScaling s) \<or> truthy (useSizeLimits s)
      then (case probe e f of
              Inr d \<Rightarrow> (True, Some d, [Probed f (Inr d)])
            | Inl err \<Rightarrow> (False, None, [Probed f (Inl err)]))
      else (False, None, []))"

definition compressImage ::
  "env \<Rightarrow> CompressionSettings \<Rightarrow> File \<Rightarrow> (error + CompressionResult) \<times> event list" where
  "compressImage e s f =
     (if \<not> canCompress s f then (Inl FileCannotBeCompressed, [])
      else
        case probeDimensions e s f of (shouldAdjustSize, originalDimensions, probed) \<Rightarrow>
        let opts = attemptOptions s f shouldAdjustSize originalDimensions in
        case imageCompression e 0 f opts of
          Inl err \<Rightarrow> (Inl (EncoderError err), probed @ [Encoded f opts (Inl err)])
        | Inr compressed \<Rightarrow>
            let result = resultOf f compressed;
                first = probed @ [Encoded f opts (Inr compressed)]
            in
            if real (fsize compressed) \<ge> real (fsize f) * 0.9
            then
              (let forced = forcedOptions s f opts in
               case imageCompression e 1 f forced of
                 Inr forcedCompressed \<Rightarrow>
                   if real (fsize forcedCompressed) < real (fsize compressed) * 0.9
                   then (Inr (resultOf f forcedCompressed),
                         first @ [Encoded f forced (Inr forcedCompressed)])
                   else (Inr result, first @ [Encoded f forced (Inr forcedCompressed)])
               | Inl err \<Rightarrow> (Inr result, first @ [Encoded f forced (Inl err)]))
            else (Inr result, first))"

text \<open>The encoder calls of a trace: the options sent and the answer.\<close>

fun attempts :: "event list \<Rightarrow> (options \<times> (string + File)) list" where
  "attempts [] = []"
| "attempts (Probed f r # evs) = attempts evs"
| "attempts (Encoded f opts r # evs) = (opts, r) # attempts evs"

subsection \<open>formatFileSize\<close>

text \<open>
  \<^verbatim>\<open>Math.floor(Math.log(bytes) / Math.log(k))\<close> with \<open>k = 1024\<close>, in exact arithmetic.
\<close>

definition unitIndex :: "nat \<Rightarrow> nat" where
  "unitIndex bytes = nat \<lfloor>ln (real bytes) / ln 1024\<rfloor>"

definition sizes :: "string list" where
  "sizes = [''Bytes'', ''KB'', ''MB'', ''GB'']"

text \<open>\<^verbatim>\<open>sizes[i]\<close>: reading past the end of a JavaScript array gives \<^verbatim>\<open>undefined\<close>.\<close>

definition sizesAt :: "nat \<Rightarrow> string option" where
  "sizesAt i = (if i < length sizes then Some (sizes ! i) else None)"

text \<open>String concatenation turns \<^verbatim>\<open>undefined\<close> into the text \<^verbatim>\<open>undefined\<close>.\<close>

definition toStr :: "string option \<Rightarrow> string" where
  "toStr v = (case v of None \<Rightarrow> ''undefined'' | Some u \<Rightarrow> u)"

text \<open>
  \<^verbatim>\<open>x.toFixed(2)\<close> for \<open>x \<ge> 0\<close> is the decimal text of \<open>n / 100\<close> for the integer \<open>n\<close>
  closest to \<open>100 x\<close>, the larger one at a tie. \<open>toFixed2\<close> gives that \<open>n\<close>.
\<close>

definition toFixed2 :: "real \<Rightarrow> nat" where
  "toFixed2 x = nat \<lfloor>x * 100 + 1 / 2\<rfloor>"

definition digit :: "nat \<Rightarrow> char" where
  "digit d = ''0123456789'' ! d"

fun showNat :: "nat \<Rightarrow> string" where
  "showNat n = (if n < 10 then [digit n] else showNat (n div 10) @ [digit (n mod 10)])"

declare showNat.simps [simp del]

text \<open>
  \<^verbatim>\<open>parseFloat(text) + ' '\<close> prints the number \<open>n / 100\<close> again, now without trailing
  zeros and without a bare decimal point.
\<close>

definition showHundredths :: "nat \<Rightarrow> string" where
  "showHundredths n =
     showNat (n div 100) @
     (let r = n mod 100 in
      if r = 0 then []
      else ''.'' @ [digit (r div 10)] @ (if r mod 10 = 0 then [] else [digit (r mod 10)]))"

definition formatFileSize :: "nat \<Rightarrow> string" where
  "formatFileSize bytes =
     (if bytes = 0 then ''0 Bytes''
      else (let i = unitIndex bytes
            in showHundredths (toFixed2 (real bytes / 1024 ^ i)) @ '' '' @ toStr (sizesAt i)))"

subsection \<open>The specification's wording of the planners\<close>

text \<open>
  The quality caps as the specification words them: a cap by byte size (1 MiB, 500 KiB),
  then a cap for PNG.
\<close>

definition spec_sizeCap :: "nat \<Rightarrow> real \<Rightarrow> real" where
  "spec_sizeCap bytes current =
     (if bytes > 1048576 then min current 0.5
      else if bytes > 512000 then min current 0.6
      else current)"

definition spec_formatCap :: "string \<Rightarrow> real \<Rightarrow> real" where
  "spec_formatCap format current = (if format = ''image/png'' then min current 0.5 else current)"

text \<open>
  The two clamps as the specification words them, each a step on the pair
  \<open>(targetWidth, targetHeight)\<close>: the limit takes the place of the dimension that
  exceeds it, and the other dimension is scaled by the ratio of the limit to that dimension
  and floored. The ratio and the scaled value are the program's numbers, doubles.
\<close>

definition spec_scaleBy :: "nat \<Rightarrow> nat \<Rightarrow> nat \<Rightarrow> nat" where
  "spec_scaleBy limit exceeding other =
     nat \<lfloor>round64 (real other * round64 (real limit / real exceeding))\<rfloor>"

definition spec_clampWidth :: "nat \<Rightarrow> nat \<times> nat \<Rightarrow> nat \<times> nat" where
  "spec_clampWidth mw t = (if fst t > mw then (mw, spec_scaleBy mw (fst t) (snd t)) else t)"

definition spec_clampHeight :: "nat \<Rightarrow> nat \<times> nat \<Rightarrow> nat \<times> nat" where
  "spec_clampHeight mh t = (if snd t > mh then (spec_scaleBy mh (snd t) (fst t), mh) else t)"

text \<open>The same scaling in exact arithmetic, for comparison.\<close>

definition exact_scaleBy :: "nat \<Rightarrow> nat \<Rightarrow> nat \<Rightarrow> nat" where
  "exact_scaleBy limit exceeding other = nat \<lfloor>real other * (real limit / real exceeding)\<rfloor>"

subsection \<open>Concrete inputs\<close>

definition photo :: File where
  "photo = \<lparr>fname = ''photo.jpg'', ftype = ''image/jpeg'', fsize = 1000\<rparr>"

text \<open>A JPEG of 2 MiB.\<close>

definition largePhoto :: File where
  "largePhoto = \<lparr>fname = ''large.jpg'', ftype = ''image/jpeg'', fsize = 2097152\<rparr>"

definition bitmap :: File where
  "bitmap = \<lparr>fname = ''scan.bmp'', ftype = ''image/bmp'', fsize = 1000\<rparr>"

definition emptyFile :: File where
  "emptyFile = \<lparr>fname = ''photo.jpg'', ftype = ''image/jpeg'', fsize = 0\<rparr>"

definition smallFile :: File where
  "smallFile = \<lparr>fname = ''photo.jpg'', ftype = ''image/jpeg'', fsize = 400\<rparr>"

text \<open>An encoder that hands the file back unchanged; the probe sees 4000 x 3000 pixels.\<close>

definition identityEncoder :: env where
  "identityEncoder =
     \<lparr>probe = (\<lambda>f. Inr \<lparr>width = 4000, height = 3000\<rparr>),
      imageCompression = (\<lambda>n f opts. Inr f)\<rparr>"

text \<open>An encoder whose output is empty.\<close>

definition emptyEncoder :: env where
  "emptyEncoder =
     \<lparr>probe = (\<lambda>f. Inr \<lparr>width = 4000, height = 3000\<rparr>),
      imageCompression = (\<lambda>n f opts. Inr emptyFile)\<rparr>"

text \<open>An encoder that fails on its second call; the probe fails with the sentinel.\<close>

definition flakyEncoder :: env where
  "flakyEncoder =
     \<lparr>probe = (\<lambda>f. Inr \<lparr>width = 0, height = 0\<rparr>),
      imageCompression = (\<lambda>n f opts. if n = 0 then Inr f else Inl ''out of memory'')\<rparr>"

text \<open>An encoder whose second call, with the forced options, does better.\<close>

definition improvingEncoder :: env where
  "improvingEncoder =
     \<lparr>probe = (\<lambda>f. Inr \<lparr>width = 4000, height = 3000\<rparr>),
      imageCompression = (\<lambda>n f opts. if n = 0 then Inr f else Inr smallFile)\<rparr>"

definition noQualitySettings :: CompressionSettings where
  "noQualitySettings = DEFAULT_SETTINGS\<lparr>useQuality := Some False\<rparr>"

definition limitSettings :: CompressionSettings where
  "limitSettings =
     DEFAULT_SETTINGS\<lparr>useSizeLimits := Some True, maxWidth := Some 800, maxHeight := Some 600\<rparr>"


definition seventySettings :: CompressionSettings where
  "seventySettings = DEFAULT_SETTINGS\<lparr>useScaling := Some True, scalePercent := Some 70\<rparr>"

section \<open>Properties\<close>

subsection \<open>The calls and the outcome of an eligible invocation\<close>

lemma attempts_append: "attempts (xs @ ys) = attempts xs @ attempts ys"
  by (induction xs rule: attempts.induct) simp_all

lemma probeDimensions_attempts:
  "probeDimensions e s f = (adj, od, probed) \<Longrightarrow> attempts probed = []"
  by (auto simp: probeDimensions_def split: if_splits sum.splits)

lemma compressImage_not_eligible:
  "\<not> canCompress s f \<Longrightarrow> compressImage e s f = (Inl FileCannotBeCompressed, [])"
  by (simp add: compressImage_def)

lemma compressImage_attempts:
  assumes "canCompress s f" and "probeDimensions e s f = (adj, od, probed)"
    and "o1 = attemptOptions s f adj od"
  shows "attempts (snd (compressImage e s f)) =
           (o1, imageCompression e 0 f o1) #
           (case imageCompression e 0 f o1 of
              Inl err \<Rightarrow> []
            | Inr c1 \<Rightarrow>
                if real (fsize c1) \<ge> real (fsize f) * 0.9
                then [(forcedOptions s f o1, imageCompression e 1 f (forcedOptions s f o1))]
                else [])"
  using assms probeDimensions_attempts [OF assms(2)]
  by (simp add: compressImage_def Let_def attempts_append split: sum.splits)

lemma compressImage_outcome:
  assumes "canCompress s f" and "probeDimensions e s f = (adj, od, probed)"
    and "o1 = attemptOptions s f adj od"
  shows "fst (compressImage e s f) =
     (case imageCompression e 0 f o1 of
        Inl err \<Rightarrow> Inl (EncoderError err)
      | Inr c1 \<Rightarrow>
          if real (fsize c1) \<ge> real (fsize f) * 0.9
          then (case imageCompression e 1 f (forcedOptions s f o1) of
                  Inl err \<Rightarrow> Inr (resultOf f c1)
                | Inr c2 \<Rightarrow> if real (fsize c2) < real (fsize c1) * 0.9
                            then Inr (resultOf f c2) else Inr (resultOf f c1))
          else Inr (resultOf f c1))"
  using assms
  by (simp add: compressImage_def Let_def split: sum.splits)

lemma canCompress_photo: "canCompress DEFAULT_SETTINGS photo"
  by (simp add: canCompress_def DEFAULT_SETTINGS_def photo_def imageTypes_def)

lemma compressImage_probed_iff:
  "Probed f' r \<in> set (snd (compressImage e s f)) \<longleftrightarrow>
     canCompress s f \<and> (truthy (useScaling s) \<or> truthy (useSizeLimits s)) \<and> f' = f \<and> r = probe e f"
  by (auto simp: compressImage_def probeDimensions_def Let_def split: sum.splits if_splits)

lemma positive_divide_number: "positive (divide_number a b) = (0 < a)"
  by (simp add: positive_def divide_number_def)

lemma resultOf_fields:
  "originalSize (resultOf f c) = fsize f"
  "compressedSize (resultOf f c) = fsize c"
  "compressedFile (resultOf f c) = c"
  "originalFile (resultOf f c) = f"
  "compressionRatio (resultOf f c) = divide_number (fsize c) (fsize f)"
  by (simp_all add: resultOf_def)

lemma compressImage_result:
  assumes "compressImage e s f = (Inr res, tr)"
  shows "\<exists>c opts. res = resultOf f c \<and> (opts, Inr c) \<in> set (attempts tr)"
proof -
  have el: "canCompress s f"
    using assms compressImage_not_eligible [of s f e] by auto
  obtain adj od probed where p: "probeDimensions e s f = (adj, od, probed)"
    by (cases "probeDimensions e s f") auto
  have tr: "tr = snd (compressImage e s f)" and out: "Inr res = fst (compressImage e s f)"
    using assms by simp_all
  note A = compressImage_attempts [OF el p refl, folded tr]
  note B = compressImage_outcome [OF el p refl, folded out]
  from B show ?thesis
    unfolding A by (auto split: sum.splits if_splits)
qed

lemma probeDimensions_default: "probeDimensions e DEFAULT_SETTINGS f = (False, None, [])"
  by (simp add: probeDimensions_def DEFAULT_SETTINGS_def truthy_def)

lemma photo_sizes:
  "real (fsize photo) \<ge> real (fsize photo) * 0.9"
  "\<not> real (fsize photo) < real (fsize photo) * 0.9"
  "\<not> real (fsize emptyFile) \<ge> real (fsize photo) * 0.9"
  "real (fsize smallFile) < real (fsize photo) * 0.9"
  by (simp_all add: photo_def emptyFile_def smallFile_def)

lemma identityEncoder_calls: "imageCompression identityEncoder n f opts = Inr f"
  by (simp add: identityEncoder_def)

lemma emptyEncoder_calls: "imageCompression emptyEncoder n f opts = Inr emptyFile"
  by (simp add: emptyEncoder_def)

lemma attemptOptions_no_probe:
  "maxWidthOrHeight (attemptOptions s f adj None) = None"
  by (simp add: attemptOptions_def initialOptions_def)

lemma attemptOptions_sentinel:
  "width d = 0 \<or> height d = 0 \<Longrightarrow> attemptOptions s f adj (Some d) = initialOptions s f"
  by (auto simp: attemptOptions_def)

lemma initialOptions_bound: "maxWidthOrHeight (initialOptions s f) = None"
  by (simp add: initialOptions_def)

lemma forcedOptions_quality:
  "initialQuality (forcedOptions s f opts) = max 0.1 (compressionQuality s f - 0.4)"
  by (simp add: forcedOptions_def)

lemma forcedOptions_bound:
  "maxWidthOrHeight (forcedOptions s f opts) =
     (if truthyNum (maxWidthOrHeight opts)
      then Some (nat \<lfloor>real (orZero (maxWidthOrHeight opts)) * 0.8\<rfloor>)
      else if truthyNum (maxWidth s)
      then Some (nat \<lfloor>real (max (orZero (maxWidth s)) (orZero (maxHeight s))) * 0.8\<rfloor>)
      else None)"
  by (simp add: forcedOptions_def)

lemma compressImage_attempts_eligible:
  "attempts (snd (compressImage e s f)) \<noteq> [] \<Longrightarrow> canCompress s f"
  using compressImage_not_eligible [of s f e] by (cases "canCompress s f") auto

lemma probeDimensions_off:
  "\<not> truthy (useScaling s) \<Longrightarrow> \<not> truthy (useSizeLimits s) \<Longrightarrow>
   probeDimensions e s f = (False, None, [])"
  by (simp add: probeDimensions_def)

lemma probeDimensions_on:
  "truthy (useScaling s) \<or> truthy (useSizeLimits s) \<Longrightarrow> probe e f = Inr d \<Longrightarrow>
   probeDimensions e s f = (True, Some d, [Probed f (Inr d)])"
  by (simp add: probeDimensions_def)

lemma orZero_simps: "orZero None = 0" "orZero (Some k) = k"
  by (simp_all add: orZero_def)

lemma truthyNum_simps: "truthyNum None = False" "truthyNum (Some k) = (k \<noteq> 0)"
  by (simp_all add: truthyNum_def)

lemma DEFAULT_SETTINGS_fields:
  "\<not> truthy (useScaling DEFAULT_SETTINGS)"
  "\<not> truthy (useSizeLimits DEFAULT_SETTINGS)"
  "maxWidth DEFAULT_SETTINGS = Some 1920"
  "orZero (maxHeight DEFAULT_SETTINGS) = 1080"
  "useQuality DEFAULT_SETTINGS \<noteq> Some False"
  by (simp_all add: DEFAULT_SETTINGS_def truthy_def orZero_def)

lemma identity_run:
  "attempts (snd (compressImage identityEncoder DEFAULT_SETTINGS photo)) =
     [(attemptOptions DEFAULT_SETTINGS photo False None, Inr photo),
      (forcedOptions DEFAULT_SETTINGS photo (attemptOptions DEFAULT_SETTINGS photo False None),
       Inr photo)]"
  using compressImage_attempts [OF canCompress_photo probeDimensions_default refl, of identityEncoder]
  by (simp add: identityEncoder_calls photo_sizes)

lemma noQualitySettings_fields:
  "\<not> truthy (useScaling noQualitySettings)"
  "\<not> truthy (useSizeLimits noQualitySettings)"
  "maxWidth noQualitySettings = Some 1920"
  "orZero (maxHeight noQualitySettings) = 1080"
  "useQuality noQualitySettings = Some False"
  "enabled noQualitySettings"
  "quality noQualitySettings = 3 / 5"
  by (simp_all add: noQualitySettings_def DEFAULT_SETTINGS_def truthy_def orZero_def)

lemma noQuality_run:
  "attempts (snd (compressImage identityEncoder noQualitySettings photo)) =
     [(attemptOptions noQualitySettings photo False None, Inr photo),
      (forcedOptions noQualitySettings photo (attemptOptions noQualitySettings photo False None),
       Inr photo)]"
proof -
  have el: "canCompress noQualitySettings photo"
    by (simp add: canCompress_def noQualitySettings_fields photo_def imageTypes_def)
  from compressImage_attempts [OF el probeDimensions_off [OF noQualitySettings_fields(1,2)] refl,
      of identityEncoder]
  show ?thesis
    by (simp add: identityEncoder_calls photo_sizes)
qed

lemma compressionQuality_noQuality: "compressionQuality noQualitySettings photo = 3 / 5"
  by (simp add: compressionQuality_def noQualitySettings_fields photo_def)

lemma limitSettings_fields:
  "truthy (useSizeLimits limitSettings)"
  "\<not> truthy (useScaling limitSettings)"
  "maxWidth limitSettings = Some 800"
  "maxHeight limitSettings = Some 600"
  "enabled limitSettings"
  by (simp_all add: limitSettings_def DEFAULT_SETTINGS_def truthy_def)

subsection \<open>Eligibility\<close>

text \<open>
  Claim C5. \<open>canCompress\<close> is true exactly when the policy is enabled and the declared
  type is one of image/jpeg, image/png, image/webp, image/gif; and \<open>compressImage\<close> throws
  its not-eligible error, having called neither the probe nor the encoder, exactly when
  the policy is disabled or the type is outside that list.
\<close>

theorem C5_eligibility:
  "canCompress s f =
     (enabled s \<and> ftype f \<in> {''image/jpeg'', ''image/png'', ''image/webp'', ''image/gif''}) \<and>
   (fst (compressImage e s f) = Inl FileCannotBeCompressed \<and> snd (compressImage e s f) = []) =
     (\<not> enabled s \<or> ftype f \<notin> {''image/jpeg'', ''image/png'', ''image/webp'', ''image/gif''})"
  by (auto simp: canCompress_def imageTypes_def compressImage_def Let_def
           split: sum.splits prod.splits)

theorem C5_eligibility_witness:
  "\<not> canCompress DEFAULT_SETTINGS bitmap \<and>
   fst (compressImage identityEncoder DEFAULT_SETTINGS bitmap) = Inl FileCannotBeCompressed \<and>
   snd (compressImage identityEncoder DEFAULT_SETTINGS bitmap) = []"
  using C5_eligibility [of DEFAULT_SETTINGS bitmap identityEncoder]
  by (simp add: DEFAULT_SETTINGS_def bitmap_def)

subsection \<open>The quality planner\<close>

lemma spec_sizeCap_le: "spec_sizeCap n q \<le> q"
  by (simp add: spec_sizeCap_def)

lemma spec_formatCap_le: "spec_formatCap t q \<le> q"
  by (simp add: spec_formatCap_def)

lemma compressionQuality_spec:
  "compressionQuality s f = spec_formatCap (ftype f) (spec_sizeCap (fsize f) (quality s))"
  by (simp add: compressionQuality_def spec_formatCap_def spec_sizeCap_def Let_def)

lemma attemptOptions_quality:
  "initialQuality (attemptOptions s f adj od) =
     (if useQuality s \<noteq> Some False then compressionQuality s f else 1)"
  by (simp add: attemptOptions_def initialOptions_def Let_def split: option.splits prod.splits)

text \<open>
  Claim C6. The planned quality is \<open>policy.quality\<close> after the cap by byte size
  (\<open>min 0.5\<close> above 1 MiB, else \<open>min 0.6\<close> above 500 KiB) and then the cap for PNG
  (\<open>min 0.5\<close>); each cap only lowers it, so it never exceeds \<open>policy.quality\<close>. On an
  eligible file the first encoder call gets this value as its quality unless
  \<open>useQuality\<close> is false, and 1 when it is false.
\<close>

theorem C6_planned_quality:
  "compressionQuality s f = spec_formatCap (ftype f) (spec_sizeCap (fsize f) (quality s)) \<and>
   spec_sizeCap (fsize f) (quality s) \<le> quality s \<and>
   compressionQuality s f \<le> spec_sizeCap (fsize f) (quality s) \<and>
   compressionQuality s f \<le> quality s \<and>
   (canCompress s f \<longrightarrow>
      (\<exists>o1 r1 rest. attempts (snd (compressImage e s f)) = (o1, r1) # rest \<and>
         initialQuality o1 = (if useQuality s \<noteq> Some False then compressionQuality s f else 1)))"
proof -
  have a: "compressionQuality s f = spec_formatCap (ftype f) (spec_sizeCap (fsize f) (quality s))"
    by (rule compressionQuality_spec)
  have b: "spec_sizeCap (fsize f) (quality s) \<le> quality s"
    by (rule spec_sizeCap_le)
  have c: "compressionQuality s f \<le> spec_sizeCap (fsize f) (quality s)"
    unfolding a by (rule spec_formatCap_le)
  have d: "\<exists>o1 r1 rest. attempts (snd (compressImage e s f)) = (o1, r1) # rest \<and>
         initialQuality o1 = (if useQuality s \<noteq> Some False then compressionQuality s f else 1)"
    if el: "canCompress s f"
  proof -
    obtain adj od probed where p: "probeDimensions e s f = (adj, od, probed)"
      by (cases "probeDimensions e s f") auto
    from compressImage_attempts [OF el p refl] attemptOptions_quality [of s f adj od]
    show ?thesis by blast
  qed
  from a b c d show ?thesis by auto
qed

theorem C6_planned_quality_witness:
  "canCompress DEFAULT_SETTINGS largePhoto \<and>
   quality DEFAULT_SETTINGS = 3 / 5 \<and>
   compressionQuality DEFAULT_SETTINGS largePhoto = 1 / 2 \<and>
   (\<exists>o1 r1 rest.
      attempts (snd (compressImage identityEncoder DEFAULT_SETTINGS largePhoto)) = (o1, r1) # rest \<and>
      initialQuality o1 = 1 / 2)"
proof -
  have el: "canCompress DEFAULT_SETTINGS largePhoto"
    by (simp add: canCompress_def DEFAULT_SETTINGS_def largePhoto_def imageTypes_def)
  have q: "spec_formatCap (ftype largePhoto) (spec_sizeCap (fsize largePhoto) (quality DEFAULT_SETTINGS)) = 1 / 2"
    by (simp add: spec_formatCap_def spec_sizeCap_def DEFAULT_SETTINGS_def largePhoto_def)
  have u: "useQuality DEFAULT_SETTINGS \<noteq> Some False" "quality DEFAULT_SETTINGS = 3 / 5"
    by (simp_all add: DEFAULT_SETTINGS_def)
  note T = C6_planned_quality [of DEFAULT_SETTINGS largePhoto identityEncoder]
  from T q have cq: "compressionQuality DEFAULT_SETTINGS largePhoto = 1 / 2"
    by (simp only:)
  from T el obtain o1 r1 rest where
    a: "attempts (snd (compressImage identityEncoder DEFAULT_SETTINGS largePhoto)) = (o1, r1) # rest"
    and i: "initialQuality o1 =
      (if useQuality DEFAULT_SETTINGS \<noteq> Some False
       then compressionQuality DEFAULT_SETTINGS largePhoto else 1)"
    by blast
  from i u(1) cq have "initialQuality o1 = 1 / 2"
    by (simp only: if_True not_False_eq_True)
  with a el u(2) cq show ?thesis by blast
qed

subsection \<open>The retry and the errors\<close>

text \<open>
  Claim C3. On an eligible file the encoder is called once; an error of that call is
  thrown to the caller and nothing else is called. Otherwise the retry is made if and only
  if \<open>compressedSize1 \<ge> originalSize * 0.9\<close>. The value returned is the result record
  that carries the retry's output as \<open>compressedFile\<close>, its size as \<open>compressedSize\<close> and
  its ratio to the original size, if the retry did not throw and
  \<open>compressedSize2 < compressedSize1 * 0.9\<close>; in every other case (no retry, a retry that
  throws, a retry that does not improve enough) it is the record that carries the output
  of the first attempt.
\<close>

theorem C3_retry_and_errors:
  fixes f :: File
  defines "made \<equiv> \<lambda>c. \<lparr>originalFile = f, compressedFile = c, originalSize = fsize f,
                          compressedSize = fsize c,
                          compressionRatio = divide_number (fsize c) (fsize f)\<rparr>"
  assumes "canCompress s f" and "compressImage e s f = (out, tr)"
  shows "\<exists>o1 r1 rest.
           attempts tr = (o1, r1) # rest \<and> r1 = imageCompression e 0 f o1 \<and>
           (case r1 of
              Inl err \<Rightarrow> out = Inl (EncoderError err) \<and> rest = []
            | Inr c1 \<Rightarrow>
                (rest \<noteq> []) = (real (fsize c1) \<ge> real (fsize f) * 0.9) \<and>
                (case rest of
                   [] \<Rightarrow> out = Inr (made c1)
                 | (o2, r2) # others \<Rightarrow>
                     others = [] \<and> r2 = imageCompression e 1 f o2 \<and>
                     (case r2 of
                        Inl err \<Rightarrow> out = Inr (made c1)
                      | Inr c2 \<Rightarrow>
                          (if real (fsize c2) < real (fsize c1) * 0.9
                           then out = Inr (made c2)
                           else out = Inr (made c1)))))"
proof -
  obtain adj od probed where p: "probeDimensions e s f = (adj, od, probed)"
    by (cases "probeDimensions e s f") auto
  define o1 where "o1 = attemptOptions s f adj od"
  have tr: "tr = snd (compressImage e s f)" and out: "out = fst (compressImage e s f)"
    using assms(3) by simp_all
  have made: "resultOf f c = made c" for c
    by (simp add: resultOf_def made_def)
  note A = compressImage_attempts [OF assms(2) p o1_def, folded tr]
  note B = compressImage_outcome [OF assms(2) p o1_def, folded out, unfolded made]
  show ?thesis
    by (rule exI [of _ o1], rule exI [of _ "imageCompression e 0 f o1"])
       (auto simp: A B split: sum.splits)
qed

text \<open>
  At a concrete input: the first output is as large as the original, the retry gives 400
  of 1000 bytes, and the retry's result is returned.
\<close>

theorem C3_retry_and_errors_witness:
  "canCompress DEFAULT_SETTINGS photo \<and>
   length (attempts (snd (compressImage improvingEncoder DEFAULT_SETTINGS photo))) = 2 \<and>
   fst (compressImage improvingEncoder DEFAULT_SETTINGS photo) =
     Inr \<lparr>originalFile = photo, compressedFile = smallFile, originalSize = 1000,
          compressedSize = 400, compressionRatio = Finite (2 / 5)\<rparr>"
proof -
  let ?run = "compressImage improvingEncoder DEFAULT_SETTINGS photo"
  let ?made = "\<lambda>c. \<lparr>originalFile = photo, compressedFile = c, originalSize = fsize photo,
                     compressedSize = fsize c,
                     compressionRatio = divide_number (fsize c) (fsize photo)\<rparr>"
  from C3_retry_and_errors [OF canCompress_photo surjective_pairing, of improvingEncoder]
  obtain o1 r1 rest where
    a: "attempts (snd ?run) = (o1, r1) # rest"
    and r1: "r1 = imageCompression improvingEncoder 0 photo o1"
    and c: "(case r1 of
              Inl err \<Rightarrow> fst ?run = Inl (EncoderError err) \<and> rest = []
            | Inr c1 \<Rightarrow>
                (rest \<noteq> []) = (real (fsize c1) \<ge> real (fsize photo) * 0.9) \<and>
                (case rest of
                   [] \<Rightarrow> fst ?run = Inr (?made c1)
                 | (o2, r2) # others \<Rightarrow>
                     others = [] \<and> r2 = imageCompression improvingEncoder 1 photo o2 \<and>
                     (case r2 of
                        Inl err \<Rightarrow> fst ?run = Inr (?made c1)
                      | Inr c2 \<Rightarrow>
                          (if real (fsize c2) < real (fsize c1) * 0.9
                           then fst ?run = Inr (?made c2)
                           else fst ?run = Inr (?made c1)))))"
    by blast
  have e0: "\<And>opts. imageCompression improvingEncoder 0 photo opts = Inr photo"
    and e1: "\<And>opts. imageCompression improvingEncoder (Suc 0) photo opts = Inr smallFile"
    by (simp_all add: improvingEncoder_def)
  have sz: "real (fsize photo) \<ge> real (fsize photo) * 0.9"
    and sz2: "real (fsize smallFile) < real (fsize photo) * 0.9"
    by (simp_all add: photo_def smallFile_def)
  have r1': "r1 = Inr photo"
    using r1 e0 by simp
  from c sz have ne: "rest \<noteq> []"
    unfolding r1' by simp
  then obtain o2 r2 others where rest: "rest = (o2, r2) # others"
    by (cases rest) auto
  from c have o: "others = []" and r2: "r2 = Inr smallFile"
    unfolding r1' rest by (simp_all add: e1)
  from c sz2 have "fst ?run = Inr (?made smallFile)"
    unfolding r1' rest r2 by simp
  moreover have "fsize photo = 1000" "fsize smallFile = 400"
    "divide_number 400 1000 = Finite (2 / 5)"
    by (simp_all add: photo_def smallFile_def divide_number_def)
  ultimately have "fst ?run =
     Inr \<lparr>originalFile = photo, compressedFile = smallFile, originalSize = 1000,
          compressedSize = 400, compressionRatio = Finite (2 / 5)\<rparr>"
    by simp
  with a rest o canCompress_photo show ?thesis by simp
qed

subsection \<open>The compression ratio\<close>

text \<open>
  Claim C4, as amended. A result that \<open>compressImage\<close> returns carries the size of the
  input file as \<open>originalSize\<close>, the size of an encoder output of this invocation as
  \<open>compressedSize\<close>, and their quotient as \<open>compressionRatio\<close>; the ratio is greater
  than 0 exactly when that encoder output is not empty.
\<close>

theorem C4_ratio:
  assumes "compressImage e s f = (Inr res, tr)"
  shows "originalSize res = fsize f \<and>
         compressedSize res = fsize (compressedFile res) \<and>
         (\<exists>opts. (opts, Inr (compressedFile res)) \<in> set (attempts tr)) \<and>
         compressionRatio res = divide_number (compressedSize res) (originalSize res) \<and>
         positive (compressionRatio res) = (0 < compressedSize res)"
proof -
  from compressImage_result [OF assms] obtain c opts where
    "res = resultOf f c" and "(opts, Inr c) \<in> set (attempts tr)" by blast
  then show ?thesis
    by (auto simp: resultOf_fields positive_divide_number)
qed

text \<open>
  The claim as stated fails when the encoder returns an empty file: the ratio is 0.
\<close>

theorem C4_ratio_counterexample:
  "fst (compressImage emptyEncoder DEFAULT_SETTINGS photo) = Inr (resultOf photo emptyFile) \<and>
   compressionRatio (resultOf photo emptyFile) = Finite 0 \<and>
   \<not> positive (compressionRatio (resultOf photo emptyFile))"
proof -
  have "fst (compressImage emptyEncoder DEFAULT_SETTINGS photo) = Inr (resultOf photo emptyFile)"
    using compressImage_outcome [OF canCompress_photo probeDimensions_default refl, of emptyEncoder]
    by (simp add: emptyEncoder_calls photo_sizes)
  moreover have "compressionRatio (resultOf photo emptyFile) = Finite 0"
    by (simp add: resultOf_def divide_number_def photo_def emptyFile_def)
  ultimately show ?thesis by (simp add: positive_def)
qed

theorem C4_ratio_witness:
  "compressImage identityEncoder DEFAULT_SETTINGS photo =
     (Inr (resultOf photo photo), snd (compressImage identityEncoder DEFAULT_SETTINGS photo)) \<and>
   0 < compressedSize (resultOf photo photo) \<and>
   positive (compressionRatio (resultOf photo photo))"
proof -
  have "fst (compressImage identityEncoder DEFAULT_SETTINGS photo) = Inr (resultOf photo photo)"
    using compressImage_outcome [OF canCompress_photo probeDimensions_default refl, of identityEncoder]
    by (simp add: identityEncoder_calls photo_sizes)
  then have h: "compressImage identityEncoder DEFAULT_SETTINGS photo =
     (Inr (resultOf photo photo), snd (compressImage identityEncoder DEFAULT_SETTINGS photo))"
    by (simp add: prod_eq_iff)
  have sz: "0 < compressedSize (resultOf photo photo)"
    by (simp add: resultOf_def photo_def)
  from C4_ratio [OF h] sz have "positive (compressionRatio (resultOf photo photo))"
    by blast
  with h sz show ?thesis by blast
qed

subsection \<open>The request of the retry\<close>

text \<open>
  Claim C2, as amended. When the retry is made, its quality is
  \<open>max 0.1 (planned - 0.4)\<close> for the planned quality \<open>compressionQuality\<close>, which is
  the quality of the first request whenever \<open>useQuality\<close> is not false; its bound is
  \<open>floor (bound1 * 0.8)\<close> when the first request carried a non-zero bound, else
  \<open>floor (max maxWidth (maxHeight or 0) * 0.8)\<close> when \<open>maxWidth\<close> is set and not zero,
  whatever \<open>useSizeLimits\<close> says, else unset.
\<close>

theorem C2_retry_request:
  assumes "attempts (snd (compressImage e s f)) = [(o1, r1), (o2, r2)]"
  shows "initialQuality o2 = max 0.1 (compressionQuality s f - 0.4) \<and>
         (useQuality s \<noteq> Some False \<longrightarrow> initialQuality o2 = max 0.1 (initialQuality o1 - 0.4)) \<and>
         (\<forall>b. maxWidthOrHeight o1 = Some b \<and> b \<noteq> 0 \<longrightarrow>
              maxWidthOrHeight o2 = Some (nat \<lfloor>real b * 0.8\<rfloor>)) \<and>
         (maxWidthOrHeight o1 = None \<or> maxWidthOrHeight o1 = Some 0 \<longrightarrow>
            (\<forall>mw. maxWidth s = Some mw \<and> mw \<noteq> 0 \<longrightarrow>
               maxWidthOrHeight o2 = Some (nat \<lfloor>real (max mw (orZero (maxHeight s))) * 0.8\<rfloor>)) \<and>
            (maxWidth s = None \<or> maxWidth s = Some 0 \<longrightarrow> maxWidthOrHeight o2 = None))"
proof -
  have el: "canCompress s f"
    using assms by (intro compressImage_attempts_eligible [of e s f]) simp
  obtain adj od probed where p: "probeDimensions e s f = (adj, od, probed)"
    by (cases "probeDimensions e s f") auto
  from compressImage_attempts [OF el p refl] assms
  have o1: "o1 = attemptOptions s f adj od" and o2: "o2 = forcedOptions s f o1"
    by (auto split: sum.splits if_splits)
  have q1: "initialQuality o1 = (if useQuality s \<noteq> Some False then compressionQuality s f else 1)"
    unfolding o1 by (rule attemptOptions_quality)
  have q2: "initialQuality o2 = max 0.1 (compressionQuality s f - 0.4)"
    unfolding o2 by (rule forcedOptions_quality)
  have b2: "maxWidthOrHeight o2 =
     (if truthyNum (maxWidthOrHeight o1)
      then Some (nat \<lfloor>real (orZero (maxWidthOrHeight o1)) * 0.8\<rfloor>)
      else if truthyNum (maxWidth s)
      then Some (nat \<lfloor>real (max (orZero (maxWidth s)) (orZero (maxHeight s))) * 0.8\<rfloor>)
      else None)"
    unfolding o2 by (rule forcedOptions_bound)
  from q1 q2 have "useQuality s \<noteq> Some False \<longrightarrow> initialQuality o2 = max 0.1 (initialQuality o1 - 0.4)"
    by simp
  moreover from b2 have "\<forall>b. maxWidthOrHeight o1 = Some b \<and> b \<noteq> 0 \<longrightarrow>
              maxWidthOrHeight o2 = Some (nat \<lfloor>real b * 0.8\<rfloor>)"
    by (simp add: truthyNum_def orZero_def)
  moreover from b2 have "maxWidthOrHeight o1 = None \<or> maxWidthOrHeight o1 = Some 0 \<longrightarrow>
            (\<forall>mw. maxWidth s = Some mw \<and> mw \<noteq> 0 \<longrightarrow>
               maxWidthOrHeight o2 = Some (nat \<lfloor>real (max mw (orZero (maxHeight s))) * 0.8\<rfloor>)) \<and>
            (maxWidth s = None \<or> maxWidth s = Some 0 \<longrightarrow> maxWidthOrHeight o2 = None)"
    by (auto simp: truthyNum_def orZero_def)
  ultimately show ?thesis using q2 by blast
qed

text \<open>
  The claim as stated fails when \<open>useQuality\<close> is false: the first request carries
  quality 1 and the retry \<open>max 0.1 (0.6 - 0.4) = 0.2\<close>, not \<open>max 0.1 (1 - 0.4)\<close>. At
  the same input \<open>useSizeLimits\<close> is false and the retry still carries the bound 1536.
\<close>

theorem C2_retry_request_counterexample:
  "map (\<lambda>(opts, r). initialQuality opts)
     (attempts (snd (compressImage identityEncoder noQualitySettings photo))) = [1, 1 / 5] \<and>
   max 0.1 (1 - 0.4) \<noteq> (1 / 5 :: real) \<and>
   \<not> truthy (useSizeLimits noQualitySettings) \<and>
   map (\<lambda>(opts, r). maxWidthOrHeight opts)
     (attempts (snd (compressImage identityEncoder noQualitySettings photo))) = [None, Some 1536]"
  by (simp add: noQuality_run noQualitySettings_fields attemptOptions_quality forcedOptions_quality
        compressionQuality_noQuality attemptOptions_no_probe forcedOptions_bound
        truthyNum_simps orZero_simps)

theorem C2_retry_request_witness:
  "(\<exists>o1 r1 o2 r2.
      attempts (snd (compressImage identityEncoder DEFAULT_SETTINGS photo)) = [(o1, r1), (o2, r2)] \<and>
      initialQuality o1 = 3 / 5 \<and> initialQuality o2 = 1 / 5 \<and>
      maxWidthOrHeight o1 = None \<and> maxWidthOrHeight o2 = Some 1536)"
proof -
  obtain o1 r1 o2 r2 where
    a: "attempts (snd (compressImage identityEncoder DEFAULT_SETTINGS photo)) = [(o1, r1), (o2, r2)]"
    and o1: "o1 = attemptOptions DEFAULT_SETTINGS photo False None"
    using identity_run by blast
  note T = C2_retry_request [OF a]
  have cq: "compressionQuality DEFAULT_SETTINGS photo = 3 / 5"
    by (simp add: compressionQuality_def DEFAULT_SETTINGS_def photo_def)
  have q1: "initialQuality o1 = 3 / 5"
    unfolding o1 by (simp add: attemptOptions_quality DEFAULT_SETTINGS_fields cq)
  have b1: "maxWidthOrHeight o1 = None"
    unfolding o1 by (rule attemptOptions_no_probe)
  from T have "initialQuality o2 = max 0.1 (compressionQuality DEFAULT_SETTINGS photo - 0.4)"
    by blast
  then have q2: "initialQuality o2 = 1 / 5"
    by (simp add: cq)
  from T b1 have "\<forall>mw. maxWidth DEFAULT_SETTINGS = Some mw \<and> mw \<noteq> 0 \<longrightarrow>
      maxWidthOrHeight o2 = Some (nat \<lfloor>real (max mw (orZero (maxHeight DEFAULT_SETTINGS))) * 0.8\<rfloor>)"
    by blast
  then have b2: "maxWidthOrHeight o2 = Some 1536"
    by (simp add: DEFAULT_SETTINGS_fields)
  from a q1 q2 b1 b2 show ?thesis by blast
qed

subsection \<open>No size option set\<close>

text \<open>
  Claim C1, as amended. Under a policy with \<open>useScaling\<close> and \<open>useSizeLimits\<close> both
  false the probe is not run and the first request carries no longest-edge bound, whatever
  the dimensions and the limits; the request of the retry carries no bound exactly when
  \<open>maxWidth\<close> is unset or 0, and otherwise \<open>floor (max maxWidth (maxHeight or 0) * 0.8)\<close>.
\<close>

theorem C1_no_probe_no_first_bound:
  assumes "\<not> truthy (useScaling s)" and "\<not> truthy (useSizeLimits s)"
  shows "(\<forall>f' r. Probed f' r \<notin> set (snd (compressImage e s f))) \<and>
         (\<forall>o1 r1 rest. attempts (snd (compressImage e s f)) = (o1, r1) # rest \<longrightarrow>
            maxWidthOrHeight o1 = None \<and>
            (\<forall>o2 r2 others. rest = (o2, r2) # others \<longrightarrow>
               (maxWidthOrHeight o2 = None) = (maxWidth s = None \<or> maxWidth s = Some 0) \<and>
               (\<forall>mw. maxWidth s = Some mw \<and> mw \<noteq> 0 \<longrightarrow>
                  maxWidthOrHeight o2 =
                    Some (nat \<lfloor>real (max mw (orZero (maxHeight s))) * 0.8\<rfloor>))))"
proof -
  have np: "\<forall>f' r. Probed f' r \<notin> set (snd (compressImage e s f))"
    using assms by (simp add: compressImage_probed_iff)
  have "maxWidthOrHeight o1 = None \<and>
            (\<forall>o2 r2 others. rest = (o2, r2) # others \<longrightarrow>
               (maxWidthOrHeight o2 = None) = (maxWidth s = None \<or> maxWidth s = Some 0) \<and>
               (\<forall>mw. maxWidth s = Some mw \<and> mw \<noteq> 0 \<longrightarrow>
                  maxWidthOrHeight o2 =
                    Some (nat \<lfloor>real (max mw (orZero (maxHeight s))) * 0.8\<rfloor>)))"
    if a: "attempts (snd (compressImage e s f)) = (o1, r1) # rest" for o1 r1 rest
  proof -
    have el: "canCompress s f"
      using a by (intro compressImage_attempts_eligible [of e s f]) simp
    note A = compressImage_attempts [OF el probeDimensions_off [OF assms] refl]
    from A a have o1: "o1 = attemptOptions s f False None"
      by simp
    have b1: "maxWidthOrHeight o1 = None"
      unfolding o1 by (rule attemptOptions_no_probe)
    have "(maxWidthOrHeight o2 = None) = (maxWidth s = None \<or> maxWidth s = Some 0) \<and>
               (\<forall>mw. maxWidth s = Some mw \<and> mw \<noteq> 0 \<longrightarrow>
                  maxWidthOrHeight o2 =
                    Some (nat \<lfloor>real (max mw (orZero (maxHeight s))) * 0.8\<rfloor>))"
      if r: "rest = (o2, r2) # others" for o2 r2 others
    proof -
      from A a r have o2: "o2 = forcedOptions s f o1"
        unfolding o1 by (auto split: sum.splits if_splits)
      show ?thesis
        unfolding o2 forcedOptions_bound b1
        by (cases "maxWidth s") (auto simp: truthyNum_def orZero_def)
    qed
    with b1 show ?thesis by blast
  qed
  with np show ?thesis by blast
qed

text \<open>
  The claim as stated fails on the default settings, whose \<open>maxWidth\<close> is 1920: the
  retry carries the bound 1536.
\<close>

theorem C1_retry_bound_counterexample:
  "\<not> truthy (useScaling DEFAULT_SETTINGS) \<and> \<not> truthy (useSizeLimits DEFAULT_SETTINGS) \<and>
   map (\<lambda>(opts, r). maxWidthOrHeight opts)
     (attempts (snd (compressImage identityEncoder DEFAULT_SETTINGS photo))) = [None, Some 1536]"
  by (simp add: identity_run DEFAULT_SETTINGS_fields attemptOptions_no_probe forcedOptions_bound
        truthyNum_simps orZero_simps)

theorem C1_no_probe_no_first_bound_witness:
  "\<not> truthy (useScaling DEFAULT_SETTINGS) \<and> \<not> truthy (useSizeLimits DEFAULT_SETTINGS) \<and>
   (\<exists>o1 r1 o2 r2.
      attempts (snd (compressImage identityEncoder DEFAULT_SETTINGS photo)) = [(o1, r1), (o2, r2)] \<and>
      maxWidthOrHeight o1 = None \<and> maxWidthOrHeight o2 = Some 1536)"
proof -
  note T = C1_no_probe_no_first_bound [OF DEFAULT_SETTINGS_fields(1,2), of identityEncoder photo]
  obtain o1 r1 o2 r2 where
    a: "attempts (snd (compressImage identityEncoder DEFAULT_SETTINGS photo)) = [(o1, r1), (o2, r2)]"
    using identity_run by blast
  from T a have b1: "maxWidthOrHeight o1 = None"
    by blast
  from T a have "\<forall>mw. maxWidth DEFAULT_SETTINGS = Some mw \<and> mw \<noteq> 0 \<longrightarrow>
      maxWidthOrHeight o2 = Some (nat \<lfloor>real (max mw (orZero (maxHeight DEFAULT_SETTINGS))) * 0.8\<rfloor>)"
    by blast
  then have "maxWidthOrHeight o2 = Some 1536"
    by (simp add: DEFAULT_SETTINGS_fields)
  with a b1 DEFAULT_SETTINGS_fields(1,2) show ?thesis by blast
qed


subsection \<open>A failed probe\<close>

text \<open>
  Claim C9. With \<open>useScaling\<close> or \<open>useSizeLimits\<close> set, when the probe of an invocation
  yields dimensions with a zero width or height (the sentinel \<open>{0, 0}\<close> of a failed load),
  the planning is skipped: the encoder is still called, with the options literal as it is,
  which carries no longest-edge bound.
\<close>

theorem C9_probe_sentinel:
  assumes "truthy (useScaling s) \<or> truthy (useSizeLimits s)"
    and "Probed f (Inr d) \<in> set (snd (compressImage e s f))"
    and "width d = 0 \<or> height d = 0"
  shows "\<exists>o1 rest. attempts (snd (compressImage e s f)) = (o1, imageCompression e 0 f o1) # rest \<and>
           o1 = initialOptions s f \<and> maxWidthOrHeight o1 = None"
proof -
  from assms(2) have el: "canCompress s f" and pr: "probe e f = Inr d"
    by (simp_all add: compressImage_probed_iff)
  note A = compressImage_attempts [OF el probeDimensions_on [OF assms(1) pr] refl]
  have "attemptOptions s f True (Some d) = initialOptions s f"
    using assms(3) by (rule attemptOptions_sentinel)
  with A initialOptions_bound [of s f] show ?thesis by simp
qed


theorem C9_probe_sentinel_witness:
  "(truthy (useScaling limitSettings) \<or> truthy (useSizeLimits limitSettings)) \<and>
   Probed photo (Inr \<lparr>width = 0, height = 0\<rparr>)
     \<in> set (snd (compressImage flakyEncoder limitSettings photo)) \<and>
   (\<exists>o1 rest.
      attempts (snd (compressImage flakyEncoder limitSettings photo)) =
        (o1, imageCompression flakyEncoder 0 photo o1) # rest \<and>
      o1 = initialOptions limitSettings photo \<and> maxWidthOrHeight o1 = None)"
proof -
  have h1: "truthy (useScaling limitSettings) \<or> truthy (useSizeLimits limitSettings)"
    by (simp add: limitSettings_fields)
  have el: "canCompress limitSettings photo"
    by (simp add: canCompress_def limitSettings_fields photo_def imageTypes_def)
  have pr: "probe flakyEncoder photo = Inr \<lparr>width = 0, height = 0\<rparr>"
    by (simp add: flakyEncoder_def)
  have h2: "Probed photo (Inr \<lparr>width = 0, height = 0\<rparr>)
     \<in> set (snd (compressImage flakyEncoder limitSettings photo))"
    using h1 el pr by (simp add: compressImage_probed_iff)
  have h3: "width \<lparr>width = 0, height = 0\<rparr> = 0 \<or> height \<lparr>width = 0, height = 0\<rparr> = 0"
    by simp
  from C9_probe_sentinel [OF h1 h2 h3] h1 h2 show ?thesis by blast
qed

subsection \<open>Rounding\<close>

lemma roundHalfEven_of_int: "roundHalfEven (of_int m) = m"
  by (simp add: roundHalfEven_def)

lemma roundHalfEven_le:
  assumes "y \<le> of_int m"
  shows "roundHalfEven y \<le> m"
proof -
  have fl: "\<lfloor>y\<rfloor> \<le> m"
    using assms by (simp add: floor_le_iff)
  show ?thesis
  proof (cases "y - of_int \<lfloor>y\<rfloor> < 1 / 2")
    case True
    with fl show ?thesis by (simp add: roundHalfEven_def Let_def)
  next
    case False
    then have "of_int \<lfloor>y\<rfloor> < y" by linarith
    with assms have "of_int \<lfloor>y\<rfloor> < (of_int m :: real)" by linarith
    then have "\<lfloor>y\<rfloor> + 1 \<le> m" by simp
    with fl show ?thesis by (simp add: roundHalfEven_def Let_def)
  qed
qed

lemma roundHalfEven_nonneg: "0 \<le> y \<Longrightarrow> 0 \<le> roundHalfEven y"
  by (simp add: roundHalfEven_def Let_def)

lemma round64_nonneg:
  assumes "0 \<le> x"
  shows "0 \<le> round64 x"
proof (cases "x = 0")
  case True
  then show ?thesis by (simp add: round64_def)
next
  case False
  with assms have "0 < x" by simp
  then show ?thesis
    by (simp add: round64_def Let_def roundHalfEven_nonneg)
qed

lemma floor_log2_eq:
  assumes "2 powi e \<le> x" and "x < 2 powi (e + 1)"
  shows "\<lfloor>log 2 x\<rfloor> = e"
proof -
  have pos: "0 < x"
    using assms(1) by (rule less_le_trans [rotated]) simp
  have "2 powr (of_int e) = (2 :: real) powi e"
    and "2 powr (of_int e + 1) = (2 :: real) powi (e + 1)"
    using powr_real_of_int' [of "2 :: real" e] powr_real_of_int' [of "2 :: real" "e + 1"]
    by simp_all
  with assms have "2 powr (of_int e) \<le> x \<and> x < 2 powr (of_int e + 1)"
    by simp
  then show ?thesis
    using pos by (simp add: floor_log_eq_powr_iff)
qed

lemma round64_binade:
  assumes "2 powi e \<le> x" and "x < 2 powi (e + 1)" and "- 1022 \<le> e"
  shows "round64 x = of_int (roundHalfEven (x / 2 powi (e - 52))) * 2 powi (e - 52)"
proof -
  have pos: "0 < x"
    using assms(1) by (rule less_le_trans [rotated]) simp
  with floor_log2_eq [OF assms(1,2)] assms(3) show ?thesis
    by (simp add: round64_def max_def Let_def)
qed

text \<open>A rounded value does not pass an integer of at most 53 bits above the exact one.\<close>

lemma round64_le_nat:
  assumes "0 \<le> x" and "x \<le> real n" and "n \<le> 2 ^ 53"
  shows "round64 x \<le> real n"
proof (cases "x = 0")
  case True
  then show ?thesis by (simp add: round64_def)
next
  case False
  with assms(1) have pos: "0 < x" by simp
  show ?thesis
  proof (cases "x < 2 ^ 53")
    case True
    define e where "e = max \<lfloor>log 2 x\<rfloor> (- 1022)"
    define k where "k = nat (52 - e)"
    have "log 2 x < 53"
      using pos True by (simp add: log_less_iff)
    then have "\<lfloor>log 2 x\<rfloor> \<le> 52"
      by (simp add: floor_le_iff)
    then have e52: "e \<le> 52"
      by (simp add: e_def)
    have u: "(2 :: real) powi (e - 52) = 1 / 2 ^ k"
      using e52 power_int_minus [of "2 :: real" "52 - e"]
      by (simp add: k_def power_int_def field_simps)
    have r: "round64 x = of_int (roundHalfEven (x * 2 ^ k)) / 2 ^ k"
      using pos by (simp add: round64_def Let_def e_def [symmetric] u)
    have "x * 2 ^ k \<le> real n * 2 ^ k"
      using assms(2) by simp
    also have "\<dots> = of_int (int n * 2 ^ k)"
      by simp
    finally have "roundHalfEven (x * 2 ^ k) \<le> int n * 2 ^ k"
      by (rule roundHalfEven_le)
    then have "real_of_int (roundHalfEven (x * 2 ^ k)) \<le> real_of_int (int n * 2 ^ k)"
      by (simp only: of_int_le_iff)
    then have "real_of_int (roundHalfEven (x * 2 ^ k)) / 2 ^ k \<le> real n"
      by (simp add: field_simps)
    with r show ?thesis by simp
  next
    case False
    with assms(2,3) have n: "real n = 2 ^ 53" and x: "x = 2 ^ 53"
      by (simp_all add: order_antisym)
    have "round64 (2 ^ 53) = 2 ^ 53"
      by (simp add: round64_binade [of 53] roundHalfEven_def)
    with n x show ?thesis by simp
  qed
qed

lemma floor_round64_le:
  assumes "0 \<le> r" and "r \<le> 1" and "n \<le> 2 ^ 53"
  shows "nat \<lfloor>round64 (real n * r)\<rfloor> \<le> n"
proof -
  have "real n * r \<le> real n * 1"
    using assms(1,2) by (intro mult_left_mono) simp_all
  then have "round64 (real n * r) \<le> real n"
    using assms(1,3) by (intro round64_le_nat) simp_all
  then have "\<lfloor>round64 (real n * r)\<rfloor> \<le> \<lfloor>real n\<rfloor>"
    by (rule floor_mono)
  then show ?thesis by simp
qed

lemma round64_ratio:
  assumes "a \<le> b"
  shows "0 \<le> round64 (real a / real b) \<and> round64 (real a / real b) \<le> 1"
proof -
  have "real a / real b \<le> 1"
    using assms by (cases "b = 0") simp_all
  then have "round64 (real a / real b) \<le> real 1"
    by (intro round64_le_nat) simp_all
  with round64_nonneg [of "real a / real b"] show ?thesis by simp
qed


subsection \<open>The dimension planner\<close>

lemma spec_scaleBy_le:
  assumes "limit \<le> exceeding" and "other \<le> 2 ^ 53"
  shows "spec_scaleBy limit exceeding other \<le> other"
  unfolding spec_scaleBy_def
  using round64_ratio [OF assms(1)] assms(2) by (intro floor_round64_le) simp_all

lemma applyScaling_le:
  assumes "fst t \<le> 2 ^ 53" and "snd t \<le> 2 ^ 53"
  shows "fst (applyScaling s t) \<le> fst t \<and> snd (applyScaling s t) \<le> snd t"
proof -
  have "nat \<lfloor>round64 (real n * round64 (real (orZero (scalePercent s)) / 100))\<rfloor> \<le> n"
    if "orZero (scalePercent s) < 100" and "n \<le> 2 ^ 53" for n
  proof -
    from that(1) have "orZero (scalePercent s) \<le> 100" by simp
    from round64_ratio [OF this] that(2) show ?thesis
      by (intro floor_round64_le) simp_all
  qed
  with assms show ?thesis
    by (cases t) (simp add: applyScaling_def Let_def)
qed

lemma spec_clampWidth_le:
  assumes "snd t \<le> 2 ^ 53"
  shows "fst (spec_clampWidth mw t) \<le> fst t \<and> snd (spec_clampWidth mw t) \<le> snd t"
  using assms spec_scaleBy_le [of mw "fst t" "snd t"]
  by (simp add: spec_clampWidth_def)

lemma spec_clampHeight_le:
  assumes "fst t \<le> 2 ^ 53"
  shows "fst (spec_clampHeight mh t) \<le> fst t \<and> snd (spec_clampHeight mh t) \<le> snd t"
  using assms spec_scaleBy_le [of mh "snd t" "fst t"]
  by (simp add: spec_clampHeight_def)

lemma applySizeLimits_spec:
  assumes "truthy (useSizeLimits s)" and "truthyNum (maxWidth s)" and "truthyNum (maxHeight s)"
  shows "applySizeLimits s t =
           spec_clampHeight (orZero (maxHeight s)) (spec_clampWidth (orZero (maxWidth s)) t)"
  using assms
  by (cases t)
     (simp add: applySizeLimits_def spec_clampHeight_def spec_clampWidth_def spec_scaleBy_def
        Let_def)

lemma applySizeLimits_le:
  assumes "fst t \<le> 2 ^ 53" and "snd t \<le> 2 ^ 53"
  shows "fst (applySizeLimits s t) \<le> fst t \<and> snd (applySizeLimits s t) \<le> snd t"
proof (cases "truthy (useSizeLimits s) \<and> truthyNum (maxWidth s) \<and> truthyNum (maxHeight s)")
  case True
  let ?w = "spec_clampWidth (orZero (maxWidth s)) t"
  from True have eq: "applySizeLimits s t = spec_clampHeight (orZero (maxHeight s)) ?w"
    by (simp add: applySizeLimits_spec)
  from spec_clampWidth_le [OF assms(2)] have w: "fst ?w \<le> fst t" "snd ?w \<le> snd t"
    by simp_all
  with assms(1) have "fst ?w \<le> 2 ^ 53" by simp
  from spec_clampHeight_le [OF this] w show ?thesis
    unfolding eq by (meson order_trans)
next
  case False
  then show ?thesis
    by (cases t) (auto simp: applySizeLimits_def)
qed

lemma targetDimensions_le:
  assumes "width d \<le> 2 ^ 53" and "height d \<le> 2 ^ 53"
  shows "fst (targetDimensions s d) \<le> width d \<and> snd (targetDimensions s d) \<le> height d"
proof -
  let ?t = "applyScaling s (width d, height d)"
  from applyScaling_le [of "(width d, height d)" s] assms
  have a: "fst ?t \<le> width d" "snd ?t \<le> height d"
    by simp_all
  with assms have "fst ?t \<le> 2 ^ 53" "snd ?t \<le> 2 ^ 53"
    by simp_all
  from applySizeLimits_le [OF this] a show ?thesis
    unfolding targetDimensions_def by (meson order_trans)
qed

lemma attemptOptions_bound_le:
  assumes "maxWidthOrHeight (attemptOptions s f adj (Some d)) = Some b"
    and "width d \<le> 2 ^ 53" and "height d \<le> 2 ^ 53"
  shows "b \<le> max (width d) (height d)"
proof -
  obtain tw th where t: "targetDimensions s d = (tw, th)"
    by (cases "targetDimensions s d") auto
  with targetDimensions_le [OF assms(2,3), of s] have "tw \<le> width d" "th \<le> height d"
    by simp_all
  moreover from assms(1) t have "b = max tw th"
    by (auto simp: attemptOptions_def initialOptions_def Let_def split: if_splits)
  ultimately show ?thesis by auto
qed

text \<open>
  Claim C7. For probed dimensions with positive width and height, no step of the
  dimension planning increases a dimension: the scaling step and the size-limit step each
  give a width and a height at most those they start from, so the target is at most the
  original in both, and the bound of the first request, when set, is at most
  \<open>max width height\<close> of the probed dimensions. The dimensions are integers that a double
  holds exactly, at most \<open>2 ^ 53\<close> (the \<^verbatim>\<open>width\<close> and \<^verbatim>\<open>height\<close> of an image element are
  32-bit unsigned integers); the products and quotients are rounded as the program rounds
  them.
\<close>

theorem C7_dimensions_never_grow:
  assumes "0 < width d" and "0 < height d"
    and "width d \<le> 2 ^ 53" and "height d \<le> 2 ^ 53"
  shows "fst (applyScaling s (width d, height d)) \<le> width d \<and>
         snd (applyScaling s (width d, height d)) \<le> height d \<and>
         (\<forall>t. fst t \<le> 2 ^ 53 \<and> snd t \<le> 2 ^ 53 \<longrightarrow>
              fst (applySizeLimits s t) \<le> fst t \<and> snd (applySizeLimits s t) \<le> snd t) \<and>
         fst (targetDimensions s d) \<le> width d \<and>
         snd (targetDimensions s d) \<le> height d \<and>
         (\<forall>o1 r1 rest b.
            Probed f (Inr d) \<in> set (snd (compressImage e s f)) \<and>
            attempts (snd (compressImage e s f)) = (o1, r1) # rest \<and>
            maxWidthOrHeight o1 = Some b \<longrightarrow> b \<le> max (width d) (height d))"
proof -
  have "b \<le> max (width d) (height d)"
    if p: "Probed f (Inr d) \<in> set (snd (compressImage e s f))"
      and a: "attempts (snd (compressImage e s f)) = (o1, r1) # rest"
      and b: "maxWidthOrHeight o1 = Some b" for o1 r1 rest b
  proof -
    from p have el: "canCompress s f" and pr: "probe e f = Inr d"
      and on: "truthy (useScaling s) \<or> truthy (useSizeLimits s)"
      by (simp_all add: compressImage_probed_iff)
    from compressImage_attempts [OF el probeDimensions_on [OF on pr] refl] a
    have "o1 = attemptOptions s f True (Some d)" by simp
    with b assms(3,4) show ?thesis by (auto intro: attemptOptions_bound_le)
  qed
  moreover from applyScaling_le [of "(width d, height d)" s] assms(3,4)
  have "fst (applyScaling s (width d, height d)) \<le> width d"
    "snd (applyScaling s (width d, height d)) \<le> height d"
    by simp_all
  moreover note applySizeLimits_le [of _ s] targetDimensions_le [OF assms(3,4), of s]
  ultimately show ?thesis by (simp del: max.bounded_iff)
qed

lemma round64_7_10: "round64 (7 / 10) = 3152519739159347 / 4503599627370496"
  by (simp add: round64_binade [of "- 1"] power_int_minus roundHalfEven_def)



lemma round64_3_7: "round64 (3 / 7) = 7720456504063707 / 18014398509481984"
  by (simp add: round64_binade [of "- 2"] power_int_minus roundHalfEven_def)

lemma round64_2_5: "round64 (2 / 5) = 3602879701896397 / 9007199254740992"
  by (simp add: round64_binade [of "- 2"] power_int_minus roundHalfEven_def)


lemma spec_scaleBy_small:
  "spec_scaleBy 3 7 5 = 2"
  "spec_scaleBy 2 5 7 = 2"
  unfolding spec_scaleBy_def
  by (simp_all add: round64_3_7 round64_2_5 round64_binade [of 1] power_int_minus
        roundHalfEven_def)

lemma applyScaling_example: "applyScaling seventySettings (1440, 1080) = (1007, 756)"
proof -
  have s: "truthy (useScaling seventySettings)" "scalePercent seventySettings = Some 70"
    by (simp_all add: seventySettings_def DEFAULT_SETTINGS_def truthy_def)
  show ?thesis
    by (simp add: applyScaling_def s truthyNum_simps orZero_simps Let_def round64_7_10
          round64_binade [of 9] power_int_minus roundHalfEven_def)
qed

theorem C7_dimensions_never_grow_witness:
  "0 < width \<lparr>width = 1440, height = 1080\<rparr> \<and>
   0 < height \<lparr>width = 1440, height = 1080\<rparr> \<and>
   width \<lparr>width = 1440, height = 1080\<rparr> \<le> 2 ^ 53 \<and>
   height \<lparr>width = 1440, height = 1080\<rparr> \<le> 2 ^ 53 \<and>
   fst (applyScaling seventySettings (1440, 1080)) \<le> 1440 \<and>
   snd (applyScaling seventySettings (1440, 1080)) \<le> 1080 \<and>
   fst (targetDimensions seventySettings \<lparr>width = 1440, height = 1080\<rparr>) \<le> 1440 \<and>
   snd (targetDimensions seventySettings \<lparr>width = 1440, height = 1080\<rparr>) \<le> 1080"
  using C7_dimensions_never_grow [of "\<lparr>width = 1440, height = 1080\<rparr>" seventySettings]
  by simp




text \<open>The order is not immaterial: on 7 x 5 with limits 3 x 2 the two orders differ.\<close>

lemma clamp_order_matters:
  "spec_clampHeight 2 (spec_clampWidth 3 (7, 5)) = (3, 2)"
  "spec_clampWidth 3 (spec_clampHeight 2 (7, 5)) = (2, 2)"
  by (simp_all add: spec_clampHeight_def spec_clampWidth_def spec_scaleBy_small)

text \<open>
  Nor is the rounding: on 2000 x 1430 under 1400 x 1000 the rounded product is just below
  1001, so the height comes out as 1000 and the height step does not fire, where exact
  arithmetic gives 1001.
\<close>

lemma exact_scaleBy_examples:
  "exact_scaleBy 1400 2000 1430 = 1001"
  "exact_scaleBy 1280 1960 1470 = 960"
  by (simp_all add: exact_scaleBy_def)

subsection \<open>The size formatter\<close>

lemma unitIndex_floorlog: "0 < bytes \<Longrightarrow> unitIndex bytes = floorlog 1024 bytes - 1"
  by (simp add: unitIndex_def floorlog_def log_def)

lemma formatFileSize_unit:
  "0 < bytes \<Longrightarrow> floorlog 1024 bytes = Suc i \<Longrightarrow>
   formatFileSize bytes =
     showHundredths (toFixed2 (real bytes / 1024 ^ i)) @ '' '' @ toStr (sizesAt i)"
  by (simp add: formatFileSize_def unitIndex_floorlog)

lemma formatFileSize_0: "formatFileSize 0 = ''0 Bytes''"
  by (simp add: formatFileSize_def)

lemma formatFileSize_1536: "formatFileSize 1536 = ''1.5 KB''"
proof -
  have "floorlog 1024 1536 = Suc 1"
    by (simp add: compute_floorlog)
  from formatFileSize_unit [OF _ this] show ?thesis
    by (simp add: showNat.simps showHundredths_def toFixed2_def digit_def sizesAt_def sizes_def
          toStr_def)
qed

lemma formatFileSize_1048576: "formatFileSize 1048576 = ''1 MB''"
proof -
  have "floorlog 1024 1048576 = Suc 2"
    by (simp add: compute_floorlog)
  from formatFileSize_unit [OF _ this] show ?thesis
    by (simp add: showNat.simps showHundredths_def toFixed2_def digit_def sizesAt_def sizes_def
          toStr_def)
qed

lemma unitIndex_bounds:
  assumes "0 < bytes"
  shows "1024 ^ unitIndex bytes \<le> bytes \<and> bytes < 1024 ^ Suc (unitIndex bytes)"
proof -
  from assms have "0 < floorlog 1024 bytes"
    by (simp add: floorlog_def)
  then have "Suc (unitIndex bytes) = floorlog 1024 bytes"
    using assms by (simp add: unitIndex_floorlog)
  with floorlog_bounds [of bytes 1024] assms show ?thesis
    by (simp add: unitIndex_floorlog)
qed

lemma formatFileSize_below_TiB:
  assumes "0 < bytes" and "bytes < 1024 ^ 4"
  shows "unitIndex bytes < 4 \<and>
         formatFileSize bytes =
           showHundredths (toFixed2 (real bytes / 1024 ^ unitIndex bytes)) @ '' '' @
           sizes ! unitIndex bytes"
proof -
  have "unitIndex bytes < 4"
  proof (rule ccontr)
    assume "\<not> unitIndex bytes < 4"
    then have "(1024 :: nat) ^ 4 \<le> 1024 ^ unitIndex bytes"
      by (intro power_increasing) simp_all
    with unitIndex_bounds [OF assms(1)] assms(2) show False by linarith
  qed
  then show ?thesis
    using assms(1) by (simp add: formatFileSize_def sizesAt_def sizes_def toStr_def Let_def)
qed

lemma formatFileSize_from_TiB:
  assumes "1024 ^ 4 \<le> bytes"
  shows "formatFileSize bytes =
           showHundredths (toFixed2 (real bytes / 1024 ^ unitIndex bytes)) @ '' undefined''"
proof -
  have pos: "0 < bytes"
    using assms by (simp add: less_le_trans [of 0 "1024 ^ 4"])
  have "4 \<le> unitIndex bytes"
  proof (rule ccontr)
    assume "\<not> 4 \<le> unitIndex bytes"
    then have "Suc (unitIndex bytes) \<le> 4" by simp
    then have "(1024 :: nat) ^ Suc (unitIndex bytes) \<le> 1024 ^ 4"
      by (intro power_increasing) simp_all
    with unitIndex_bounds [OF pos] assms show False by linarith
  qed
  then show ?thesis
    using pos by (simp add: formatFileSize_def sizesAt_def sizes_def toStr_def Let_def)
qed

text \<open>
  Claim C10. The three examples hold (\<open>formatFileSize_0\<close>, \<open>formatFileSize_1536\<close>,
  \<open>formatFileSize_1048576\<close>), and below 1 TiB the text is the scaled value followed by the
  unit at index \<open>i\<close> (\<open>formatFileSize_below_TiB\<close>). From 1 TiB on the index is 4 or
  more, past the end of the four units, and the text ends in \<^verbatim>\<open>undefined\<close>
  (\<open>formatFileSize_from_TiB\<close>): at exactly 1 TiB the function returns \<^verbatim>\<open>1 undefined\<close>,
  not a value followed by a unit of the sequence.
\<close>

theorem C10_formatFileSize_TiB: "formatFileSize 1099511627776 = ''1 undefined''"
proof -
  have "floorlog 1024 1099511627776 = Suc 4"
    by (simp add: compute_floorlog)
  from formatFileSize_unit [OF _ this] show ?thesis
    by (simp add: showNat.simps showHundredths_def toFixed2_def digit_def sizesAt_def sizes_def
          toStr_def)
qed

end
